theory Spec2Isabelle
  imports Main "HOL-Library.AList"
begin

section \<open>Configuration of \<^verbatim>\<open>roxy/server.py\<close>\<close>

text \<open>
  The module constants, as the source has them:
  \<^verbatim>\<open>START_PORT = 10000\<close>, \<^verbatim>\<open>DELIMITER = '|'\<close> and the table
  \<^verbatim>\<open>PROTOCOL_PORTS\<close>. Ports are Python integers, hence \<open>int\<close>.
\<close>

definition START_PORT :: int where
  "START_PORT = 10000"

definition DELIMITER :: char where
  "DELIMITER = CHR ''|''"

definition PROTOCOL_PORTS :: "(string \<times> int) list" where
  "PROTOCOL_PORTS = [(''ssh'', 22), (''telnet'', 23), (''http'', 80), (''https'', 443)]"

section \<open>Python values used by the mapping store\<close>

text \<open>
  A Python \<^verbatim>\<open>dict\<close> is an association list in insertion order with pairwise
  different keys: \<open>map_of\<close> is the lookup, \<open>AList.update\<close> is \<^verbatim>\<open>d[k] = v\<close>
  (the value is replaced in place when the key is present, the pair is appended otherwise).
  The keys of the mapping dictionary are tuples of strings (\<open>string list\<close>): the
  request handler inserts pairs \<^verbatim>\<open>(ip, protocol)\<close>, and \<^verbatim>\<open>load_mappings\<close>
  inserts whatever \<^verbatim>\<open>tuple(k.split(DELIMITER))\<close> yields.
\<close>

type_synonym ('k, 'v) dict = "('k \<times> 'v) list"

type_synonym mappings = "(string list, int) dict"

datatype error = OSError | UnicodeDecodeError | RecursionError | AttributeError | IndexError

text \<open>\<^verbatim>\<open>s.split(sep)\<close> for a separator of one character: the pieces between the
  occurrences of \<open>sep\<close>. There is always at least one piece, so the first branch
  of the \<open>case\<close> is never taken.\<close>

fun split :: "char \<Rightarrow> string \<Rightarrow> string list" where
  "split sep [] = [[]]"
| "split sep (c # cs) =
     (case split sep cs of
        [] \<Rightarrow> [[c]]
      | piece # pieces \<Rightarrow> if c = sep then [] # piece # pieces else (c # piece) # pieces)"

text \<open>Building a dictionary from pairs (a comprehension, \<^verbatim>\<open>dict(pairs)\<close>): the pairs
  are inserted from left to right into the dictionary built so far, so a later pair with
  a key seen before overwrites the value. This is also what \<^verbatim>\<open>json.load\<close> does
  with the members of a JSON object.\<close>

definition insert_all :: "('k, 'v) dict \<Rightarrow> ('k \<times> 'v) list \<Rightarrow> ('k, 'v) dict" where
  "insert_all d pairs = foldl (\<lambda>d (k, v). AList.update k v d) d pairs"

definition dict_of :: "('k \<times> 'v) list \<Rightarrow> ('k, 'v) dict" where
  "dict_of pairs = insert_all [] pairs"

section \<open>The mapping file\<close>

text \<open>
  What \<^verbatim>\<open>port_mappings.json\<close> can be when the program looks at it. The JSON library
  is not part of the repository: a file whose text \<^verbatim>\<open>json.load\<close> accepts is
  represented by the value it parses to, and \<^verbatim>\<open>json.dump\<close> of a dictionary with
  string keys and integer values writes the text that parses back to that dictionary.
  \<^item> \<open>Missing\<close>: \<^verbatim>\<open>os.path.exists\<close> is false;
  \<^item> \<open>Unreadable\<close>: the path exists and \<^verbatim>\<open>open(.., 'r')\<close> raises \<^verbatim>\<open>OSError\<close>
    (no permission, a directory);
  \<^item> \<open>Undecodable\<close>: the file opens, and its bytes are not text in the encoding of
    \<^verbatim>\<open>open\<close>: the read inside \<^verbatim>\<open>json.load\<close> raises \<^verbatim>\<open>UnicodeDecodeError\<close>;
  \<^item> \<open>Empty_File\<close>, \<open>Invalid_Json\<close>: text that \<^verbatim>\<open>json.load\<close> rejects with
    \<^verbatim>\<open>JSONDecodeError\<close>;
  \<^item> \<open>Too_Deep\<close>: text nested so deeply that \<^verbatim>\<open>json.load\<close> raises
    \<^verbatim>\<open>RecursionError\<close>;
  \<^item> \<open>Object ms\<close>: the text of a JSON object with the members \<open>ms\<close>, in the order of
    the text, every value an integer;
  \<^item> \<open>Array\<close>: the text of a JSON array, such as the \<^verbatim>\<open>[]\<close> that
    \<^verbatim>\<open>setup_commands.py\<close> writes;
  \<^item> \<open>Other_Json\<close>: the text of any other JSON value (a string, a number,
    \<^verbatim>\<open>true\<close>, \<^verbatim>\<open>false\<close>, \<^verbatim>\<open>null\<close>).
  JSON objects with values that are not integers are outside this model.
\<close>

datatype storage =
    Missing
  | Unreadable
  | Undecodable
  | Empty_File
  | Invalid_Json
  | Too_Deep
  | Object "(string \<times> int) list"
  | Array
  | Other_Json

text \<open>
  \<^verbatim>\<open>load_mappings()\<close>. Only \<^verbatim>\<open>json.JSONDecodeError\<close> is caught. The error of
  \<^verbatim>\<open>open\<close>, the other exceptions of \<^verbatim>\<open>json.load\<close> (\<^verbatim>\<open>UnicodeDecodeError\<close> and
  \<^verbatim>\<open>RecursionError\<close> are not subclasses of \<^verbatim>\<open>JSONDecodeError\<close>) and the
  \<^verbatim>\<open>AttributeError\<close> of \<^verbatim>\<open>mappings.items()\<close> on a value that is not a dictionary
  leave the function. The comprehension
  \<^verbatim>\<open>{tuple(k.split(DELIMITER)): v for k, v in mappings.items()}\<close> inserts in the
  order of the loaded dictionary.
\<close>

definition load_mappings :: "storage \<Rightarrow> error + mappings" where
  "load_mappings st =
     (case st of
        Missing \<Rightarrow> Inr []
      | Unreadable \<Rightarrow> Inl OSError
      | Undecodable \<Rightarrow> Inl UnicodeDecodeError
      | Empty_File \<Rightarrow> Inr []
      | Invalid_Json \<Rightarrow> Inr []
      | Too_Deep \<Rightarrow> Inl RecursionError
      | Object ms \<Rightarrow> Inr (dict_of (map (\<lambda>(k, v). (split DELIMITER k, v)) (dict_of ms)))
      | Array \<Rightarrow> Inl AttributeError
      | Other_Json \<Rightarrow> Inl AttributeError)"

text \<open>
  Lines 147 to 152 of \<^verbatim>\<open>SetupManager._validate_configuration\<close> in
  \<^verbatim>\<open>setup_commands.py\<close>, the part of the setup that touches the mapping file: when the
  file does not exist, or exists with size 0, the text \<^verbatim>\<open>[]\<close> is written to it. The
  setup runs in the directory the server is started in, so this is the file
  \<^verbatim>\<open>load_mappings\<close> reads.
\<close>

definition validate_configuration :: "storage \<Rightarrow> storage" where
  "validate_configuration st =
     (case st of
        Missing \<Rightarrow> Array
      | Empty_File \<Rightarrow> Array
      | _ \<Rightarrow> st)"

text \<open>The key of the comprehension in \<^verbatim>\<open>save_mappings\<close>,
  \<^verbatim>\<open>f"{k[0]}{DELIMITER}{k[1]}"\<close>: a tuple with fewer than two components raises
  \<^verbatim>\<open>IndexError\<close>, components after the second are dropped.\<close>

fun serialize_key :: "string list \<Rightarrow> error + string" where
  "serialize_key (a # b # rest) = Inr (a @ DELIMITER # b)"
| "serialize_key k = Inl IndexError"

text \<open>The comprehension of \<^verbatim>\<open>save_mappings\<close>, item by item, with the dictionary built
  so far; the first key that raises ends it.\<close>

fun serialize_items :: "mappings \<Rightarrow> (string, int) dict \<Rightarrow> error + (string, int) dict" where
  "serialize_items [] d = Inr d"
| "serialize_items ((k, v) # items) d =
     (case serialize_key k of
        Inl e \<Rightarrow> Inl e
      | Inr s \<Rightarrow> serialize_items items (AList.update s v d))"

text \<open>
  \<^verbatim>\<open>save_mappings(mappings)\<close>: the new state of the file, and the exception if one
  leaves the function. \<^verbatim>\<open>open(.., 'w')\<close> has truncated the file before the
  comprehension runs, so an exception there leaves an empty file behind. The file is
  taken to be writable.
\<close>

definition save_mappings :: "mappings \<Rightarrow> storage \<times> error option" where
  "save_mappings mappings =
     (case serialize_items mappings [] of
        Inl e \<Rightarrow> (Empty_File, Some e)
      | Inr d \<Rightarrow> (Object d, None))"

section \<open>Resolving a pair to its external port\<close>

text \<open>
  Lines 160 to 172 of \<^verbatim>\<open>index()\<close>: load the mappings, look the pair up, and when it
  is new allocate \<^verbatim>\<open>max(mappings.values()) + 1\<close> (or \<^verbatim>\<open>START_PORT\<close> when the
  dictionary is empty), insert it and save. The result is the port (or the exception) and
  the state of the file afterwards.
\<close>

definition resolve :: "string \<Rightarrow> string \<Rightarrow> storage \<Rightarrow> (error + int) \<times> storage" where
  "resolve ip protocol st =
     (case load_mappings st of
        Inl e \<Rightarrow> (Inl e, st)
      | Inr mappings \<Rightarrow>
          (let mapping_key = [ip, protocol] in
           case map_of mappings mapping_key of
             Some port \<Rightarrow> (Inr port, st)
           | None \<Rightarrow>
               (let port = (if mappings \<noteq> [] then Max (set (map snd mappings)) + 1
                            else START_PORT);
                    mappings' = AList.update mapping_key port mappings
                in case save_mappings mappings' of
                     (st', Some e) \<Rightarrow> (Inl e, st')
                   | (st', None) \<Rightarrow> (Inr port, st'))))"

section \<open>The request handler\<close>

text \<open>
  A request as \<^verbatim>\<open>index()\<close> reads it: the method, the query arguments
  (\<^verbatim>\<open>request.args\<close>), the form fields (\<^verbatim>\<open>request.form\<close>) and the \<^verbatim>\<open>Host\<close>
  header. The route is registered for GET and POST; Flask adds HEAD to a route that
  allows GET, and answers OPTIONS itself without calling the view.
\<close>

datatype http_method = GET | POST | HEAD

record request =
  request_method :: http_method
  args :: "string \<rightharpoonup> string"
  form :: "string \<rightharpoonup> string"
  host :: string

text \<open>The two ways \<^verbatim>\<open>index()\<close> answers: the page \<^verbatim>\<open>index.html\<close> with its
  \<^verbatim>\<open>error\<close> argument (\<open>None\<close> is Python's \<^verbatim>\<open>None\<close>), or a redirect to a URL.\<close>

datatype response = Render_Template "string option" | Redirect string

text \<open>\<^verbatim>\<open>str(n)\<close> for an integer, as the f-string of the redirect URL formats the port:
  the decimal digits, most significant first, after a minus sign for a negative number.\<close>

definition digit :: "nat \<Rightarrow> char" where
  "digit d = ''0123456789'' ! d"

fun digits :: "nat \<Rightarrow> string" where
  "digits n = (if n < 10 then [digit n] else digits (n div 10) @ [digit (n mod 10)])"

declare digits.simps [simp del]

definition str :: "int \<Rightarrow> string" where
  "str i = (if i < 0 then CHR ''-'' # digits (nat (- i)) else digits (nat i))"

text \<open>The truth value of \<^verbatim>\<open>request.args.get(..)\<close>: \<^verbatim>\<open>None\<close> and the empty string
  are false.\<close>

definition truthy :: "string option \<Rightarrow> bool" where
  "truthy x = (case x of None \<Rightarrow> False | Some s \<Rightarrow> s \<noteq> [])"

text \<open>The \<^verbatim>\<open>else\<close> branch of \<^verbatim>\<open>index()\<close>: the page, with an error message for POST
  only.\<close>

definition missing_parameters :: "request \<Rightarrow> response" where
  "missing_parameters request =
     Render_Template
       (if request_method request = POST then Some ''Please specify both protocol and IP.'' else None)"

text \<open>Lines 145 to 153 of \<^verbatim>\<open>index()\<close>: \<^verbatim>\<open>protocol\<close> and \<^verbatim>\<open>ip\<close> come from the
  form fields of a POST request and from the query arguments of a GET request; for any
  other method both stay \<^verbatim>\<open>None\<close>.\<close>

definition parameters :: "request \<Rightarrow> string option \<times> string option" where
  "parameters request =
     (if request_method request = POST then (form request ''protocol'', form request ''ip'')
      else if request_method request = GET then (args request ''protocol'', args request ''ip'')
      else (None, None))"

text \<open>
  Lines 156 to 183 of \<^verbatim>\<open>index()\<close>, the branch taken when both parameters are given:
  reject a protocol that is not in the table, resolve the pair to its port, hand
  \<^verbatim>\<open>start_tcp_proxy(port, ip, internal_port)\<close> to a new thread and redirect the client
  to \<^verbatim>\<open>f"{protocol}://{host_ip}:{port}"\<close>. The result is the answer (or the exception
  that leaves the view), the state of the mapping file afterwards, and the calls of
  \<^verbatim>\<open>start_tcp_proxy\<close> handed to new threads. The thread is started after the mapping is
  saved, so an exception before that starts none.
\<close>

definition forward ::
  "string \<Rightarrow> string \<Rightarrow> string \<Rightarrow> storage
     \<Rightarrow> (error + response) \<times> storage \<times> (int \<times> string \<times> int) list" where
  "forward protocol ip request_host st =
     (case map_of PROTOCOL_PORTS protocol of
        None \<Rightarrow>
          (Inr (Render_Template
             (Some (''Unsupported protocol '' @ [CHR 0x27] @ protocol @ [CHR 0x27] @ ''.''))),
           st, [])
      | Some internal_port \<Rightarrow>
          (case resolve ip protocol st of
             (Inl e, st') \<Rightarrow> (Inl e, st', [])
           | (Inr port, st') \<Rightarrow>
               (let host_ip = hd (split CHR '':'' request_host);
                    new_url = protocol @ ''://'' @ host_ip @ '':'' @ str port
                in (Inr (Redirect new_url), st', [(port, ip, internal_port)]))))"

text \<open>\<^verbatim>\<open>index()\<close> as a whole.\<close>

definition index ::
  "request \<Rightarrow> storage \<Rightarrow> (error + response) \<times> storage \<times> (int \<times> string \<times> int) list" where
  "index request st =
     (case parameters request of
        (protocol, ip) \<Rightarrow>
          if truthy protocol \<and> truthy ip
          then forward (the protocol) (the ip) (host request) st
          else (Inr (missing_parameters request), st, []))"

text \<open>A run of resolutions, one request after the other, on the mapping file: the
  file it leaves, and the answers it gives.\<close>

fun resolve_all :: "(string \<times> string) list \<Rightarrow> storage \<Rightarrow> storage" where
  "resolve_all [] st = st"
| "resolve_all ((ip, protocol) # rest) st = resolve_all rest (snd (resolve ip protocol st))"

fun resolve_answers :: "(string \<times> string) list \<Rightarrow> storage \<Rightarrow> (error + int) list" where
  "resolve_answers [] st = []"
| "resolve_answers ((ip, protocol) # rest) st =
     (case resolve ip protocol st of (answer, st') \<Rightarrow> answer # resolve_answers rest st')"

section \<open>Listener threads\<close>

text \<open>
  What the operating system does to one \<^verbatim>\<open>proxy_worker\<close> thread is a parameter of the
  model: whether \<^verbatim>\<open>bind\<close> (and \<^verbatim>\<open>listen\<close>) succeed, and what the \<open>i\<close>-th call of
  \<^verbatim>\<open>server_socket.accept()\<close> does: it returns a connection, it raises, or it never
  returns (no client connects any more). The socket is a local variable of the worker;
  no other code holds a reference to it.
\<close>

datatype accept_outcome = Connection | Accept_Error | Never_Returns

record thread_env =
  bind_ok :: bool
  accepts :: "nat \<Rightarrow> accept_outcome"

text \<open>The \<^verbatim>\<open>while True\<close> loop of \<^verbatim>\<open>proxy_worker\<close>: each accepted connection is handed
  to a new handler thread; only an exception leaves the loop. The result is the number of
  connections accepted; \<open>None\<close> is a loop that never ends.\<close>

partial_function (option) accept_loop :: "(nat \<Rightarrow> accept_outcome) \<Rightarrow> nat \<Rightarrow> nat option" where
  "accept_loop outcomes i =
     (case outcomes i of
        Connection \<Rightarrow> accept_loop outcomes (Suc i)
      | Accept_Error \<Rightarrow> Some i
      | Never_Returns \<Rightarrow> None)"

text \<open>How a worker ends, when it does: in both cases the \<^verbatim>\<open>except\<close> clause prints the
  exception and the \<^verbatim>\<open>finally\<close> clause closes the socket; nothing is raised to any
  caller.\<close>

datatype worker_exit = Bind_Failed | Accept_Failed nat

definition proxy_worker :: "thread_env \<Rightarrow> worker_exit option" where
  "proxy_worker e =
     (if bind_ok e then map_option Accept_Failed (accept_loop (accepts e) 0)
      else Some Bind_Failed)"

text \<open>
  The process state the lifecycle functions work on: the global dictionary
  \<^verbatim>\<open>active_proxies\<close> (port to thread object) and the worker threads started so far, each
  with the arguments its closure holds; a thread object is its position in that list.
\<close>

record world =
  active_proxies :: "int \<rightharpoonup> nat"
  threads :: "(int \<times> string \<times> int) list"

text \<open>A call either returns, or blocks for ever; both carry the process state (for a
  blocked call, the state it is blocked in).\<close>

datatype outcome = Returns world | Blocks_Forever world

text \<open>\<^verbatim>\<open>proxy_thread.join()\<close> with no timeout returns when the thread's function has
  returned, and not before.\<close>

definition join :: "(nat \<Rightarrow> thread_env) \<Rightarrow> nat \<Rightarrow> unit option" where
  "join env t = map_option (\<lambda>_. ()) (proxy_worker (env t))"

text \<open>\<^verbatim>\<open>stop_proxy(port)\<close>: pop the entry, then join the thread.\<close>

definition stop_proxy :: "(nat \<Rightarrow> thread_env) \<Rightarrow> int \<Rightarrow> world \<Rightarrow> outcome" where
  "stop_proxy env port w =
     (case active_proxies w port of
        None \<Rightarrow> Returns w
      | Some proxy_thread \<Rightarrow>
          (let w' = w\<lparr>active_proxies := (active_proxies w)(port := None)\<rparr> in
           case join env proxy_thread of
             None \<Rightarrow> Blocks_Forever w'
           | Some u \<Rightarrow> Returns w'))"

text \<open>\<^verbatim>\<open>start_tcp_proxy(local_port, remote_ip, remote_port)\<close>: stop what is registered
  for the port, start a new worker thread, register it. The worker binds in its own
  thread; the caller does not wait for it.\<close>

definition start_tcp_proxy ::
  "(nat \<Rightarrow> thread_env) \<Rightarrow> int \<Rightarrow> string \<Rightarrow> int \<Rightarrow> world \<Rightarrow> outcome" where
  "start_tcp_proxy env local_port remote_ip remote_port w =
     (case (if active_proxies w local_port \<noteq> None then stop_proxy env local_port w
            else Returns w) of
        Blocks_Forever w' \<Rightarrow> Blocks_Forever w'
      | Returns w' \<Rightarrow>
          (let proxy_thread = length (threads w') in
           Returns (w'\<lparr>threads := threads w' @ [(local_port, remote_ip, remote_port)],
                       active_proxies := (active_proxies w')(local_port \<mapsto> proxy_thread)\<rparr>)))"

section \<open>Predicates and observations used by the theorems\<close>

text \<open>The text \<^verbatim>\<open>save_mappings\<close> writes for a key with at least two components.\<close>

definition key_text :: "string list \<Rightarrow> string" where
  "key_text k = hd k @ DELIMITER # hd (tl k)"

text \<open>The invariant of the mapping store, on the mapping set \<^verbatim>\<open>load_mappings\<close> reads
  from the file: loading does not fail, no key occurs twice (a key has one port), and no
  port occurs twice.\<close>

definition store_invariant :: "storage \<Rightarrow> bool" where
  "store_invariant st =
     (case load_mappings st of
        Inl e \<Rightarrow> False
      | Inr m \<Rightarrow> distinct (map fst m) \<and> distinct (map snd m))"

text \<open>The files the program itself leaves behind: no file yet, or an object whose member
  names are pairwise different and contain the delimiter, with pairwise different ports.\<close>

definition written_by_save :: "storage \<Rightarrow> bool" where
  "written_by_save st =
     (case st of
        Missing \<Rightarrow> True
      | Object ms \<Rightarrow>
          distinct (map fst ms) \<and> distinct (map snd ms) \<and>
          list_all (\<lambda>k. DELIMITER \<in> set k) (map fst ms)
      | _ \<Rightarrow> False)"

text \<open>The URL a client is redirected to, if the answer is a redirect.\<close>

definition redirect_of :: "error + response \<Rightarrow> string option" where
  "redirect_of r = (case r of Inr (Redirect url) \<Rightarrow> Some url | _ \<Rightarrow> None)"

section \<open>Facts about splitting and dictionaries\<close>

lemma split_nonempty: "split sep s \<noteq> []"
  by (induction s) (auto split: list.splits)

lemma split_pieces_no_sep: "w \<in> set (split sep s) \<Longrightarrow> sep \<notin> set w"
  by (induction s arbitrary: w) (auto split: list.splits if_splits simp: split_nonempty)

lemma split_no_sep: "sep \<notin> set s \<Longrightarrow> split sep s = [s]"
  by (induction s) auto

lemma split_append_sep: "sep \<notin> set a \<Longrightarrow> split sep (a @ sep # b) = a # split sep b"
  by (induction a) (auto split: list.splits simp: split_nonempty)

lemma split_single: "split sep s = [y] \<Longrightarrow> y = s"
  by (induction s arbitrary: y) (auto split: list.splits if_splits simp: split_nonempty)

lemma length_split_sep: "2 \<le> length (split sep (a @ sep # b))"
  by (induction a) (auto split: list.splits simp: split_nonempty)

lemma length_split_mem: "sep \<in> set s \<Longrightarrow> 2 \<le> length (split sep s)"
  using length_split_sep [of sep] by (auto simp: in_set_conv_decomp)

lemma split_pair_inject: "split sep (a @ sep # b) = [x, y] \<Longrightarrow> x = a \<and> y = b"
proof (induction a arbitrary: x)
  case Nil
  then show ?case by (auto split: list.splits if_splits dest: split_single)
next
  case (Cons c a)
  show ?case
  proof (cases "c = sep")
    case True
    with Cons.prems have "split sep (a @ sep # b) = [y]"
      by (auto split: list.splits)
    with length_split_sep [of sep a b] show ?thesis by simp
  next
    case False
    with Cons.prems obtain x' where "split sep (a @ sep # b) = [x', y]" and "x = c # x'"
      by (auto split: list.splits)
    with Cons.IH show ?thesis by auto
  qed
qed

lemma values_update_subset: "snd ` set (AList.update k v d) \<subseteq> insert v (snd ` set d)"
  by (induction d) auto

lemma distinct_values_update:
  "distinct (map snd d) \<Longrightarrow> v \<notin> snd ` set d \<Longrightarrow> distinct (map snd (AList.update k v d))"
proof (induction d)
  case Nil
  then show ?case by simp
next
  case (Cons p d)
  then show ?case
    using values_update_subset [of k v d] by (cases p) (auto simp: image_iff)
qed

lemma update_fresh: "k \<notin> fst ` set d \<Longrightarrow> AList.update k v d = d @ [(k, v)]"
  by (induction d) auto

lemma insert_all_Nil [simp]: "insert_all d [] = d"
  by (simp add: insert_all_def)

lemma insert_all_Cons [simp]: "insert_all d ((k, v) # ps) = insert_all (AList.update k v d) ps"
  by (simp add: insert_all_def)

lemma insert_all_keys_distinct:
  "distinct (map fst d) \<Longrightarrow> distinct (map fst (insert_all d ps))"
  by (induction ps arbitrary: d) (auto simp: distinct_update)

lemma insert_all_keys: "fst ` set (insert_all d ps) = fst ` set d \<union> fst ` set ps"
proof (induction ps arbitrary: d)
  case Nil
  then show ?case by simp
next
  case (Cons p ps)
  obtain k v where p: "p = (k, v)" by (cases p)
  have "fst ` set (insert_all (AList.update k v d) ps)
        = fst ` set (AList.update k v d) \<union> fst ` set ps"
    by (rule Cons.IH)
  also have "\<dots> = fst ` set d \<union> fst ` set (p # ps)"
    unfolding p by (simp add: dom_update)
  finally show ?case
    unfolding p by simp
qed

lemma insert_all_values: "snd ` set (insert_all d ps) \<subseteq> snd ` set d \<union> snd ` set ps"
proof (induction ps arbitrary: d)
  case Nil
  then show ?case by simp
next
  case (Cons p ps)
  obtain k v where p: "p = (k, v)" by (cases p)
  have "snd ` set (insert_all (AList.update k v d) ps)
        \<subseteq> snd ` set (AList.update k v d) \<union> snd ` set ps"
    by (rule Cons.IH)
  also have "\<dots> \<subseteq> snd ` set d \<union> snd ` set (p # ps)"
    using values_update_subset [of k v d] unfolding p by auto
  finally show ?case
    unfolding p by simp
qed

lemma insert_all_values_distinct:
  "distinct (map snd d @ map snd ps) \<Longrightarrow> distinct (map snd (insert_all d ps))"
proof (induction ps arbitrary: d)
  case Nil
  then show ?case by simp
next
  case (Cons p ps)
  obtain k v where p: "p = (k, v)" by (cases p)
  from Cons.prems have d: "distinct (map snd d)" and v: "v \<notin> snd ` set d"
    and ps: "distinct (map snd ps)" and vps: "v \<notin> snd ` set ps"
    and disj: "snd ` set d \<inter> snd ` set ps = {}"
    unfolding p by auto
  have "distinct (map snd (AList.update k v d))"
    using d v by (rule distinct_values_update)
  moreover have "snd ` set (AList.update k v d) \<inter> snd ` set ps = {}"
    using values_update_subset [of k v d] vps disj by auto
  ultimately have "distinct (map snd (AList.update k v d) @ map snd ps)"
    using ps by simp
  then show ?case
    unfolding p by (simp add: Cons.IH)
qed

lemma insert_all_fresh:
  "distinct (map fst (d @ ps)) \<Longrightarrow> insert_all d ps = d @ ps"
proof (induction ps arbitrary: d)
  case Nil
  then show ?case by simp
next
  case (Cons p ps)
  obtain k v where p: "p = (k, v)" by (cases p)
  from Cons.prems have "k \<notin> fst ` set d"
    unfolding p by auto
  then have u: "AList.update k v d = d @ [(k, v)]"
    by (rule update_fresh)
  from Cons.prems have "distinct (map fst ((d @ [(k, v)]) @ ps))"
    unfolding p by simp
  then have "insert_all (d @ [(k, v)]) ps = (d @ [(k, v)]) @ ps"
    by (rule Cons.IH)
  then show ?case
    unfolding p by (simp add: u)
qed

lemma dict_of_distinct: "distinct (map fst ps) \<Longrightarrow> dict_of ps = ps"
  using insert_all_fresh [of "[]" ps] by (simp add: dict_of_def)

lemma serialize_key_text: "2 \<le> length k \<Longrightarrow> serialize_key k = Inr (key_text k)"
  by (cases k rule: serialize_key.cases) (auto simp: key_text_def)

lemma serialize_items_insert_all:
  "\<forall>k\<in>fst ` set m. 2 \<le> length k \<Longrightarrow>
   serialize_items m d = Inr (insert_all d (map (\<lambda>(k, v). (key_text k, v)) m))"
  by (induction m arbitrary: d) (auto simp: serialize_key_text)

section \<open>Files the program writes\<close>

lemma key_text_has_delimiter: "DELIMITER \<in> set (key_text k)"
  by (simp add: key_text_def)

lemma load_written:
  assumes "written_by_save st"
  shows "\<exists>m. load_mappings st = Inr m \<and> distinct (map fst m) \<and> distinct (map snd m)
            \<and> (\<forall>k\<in>fst ` set m. 2 \<le> length k)"
proof (cases st)
  case Missing
  then show ?thesis by (simp add: load_mappings_def)
next
  case (Object ms)
  let ?f = "\<lambda>(k, v). (split DELIMITER k, v)"
  let ?m = "insert_all [] (map ?f ms)"
  from assms Object have keys: "distinct (map fst ms)" and ports: "distinct (map snd ms)"
    and delim: "\<forall>k\<in>fst ` set ms. DELIMITER \<in> set k"
    by (auto simp: written_by_save_def list_all_iff)
  have "dict_of ms = ms"
    using keys by (rule dict_of_distinct)
  then have load: "load_mappings st = Inr ?m"
    by (simp add: load_mappings_def Object dict_of_def)
  have snd_f: "snd \<circ> ?f = snd"
    by auto
  have "distinct (map fst ?m)"
    by (rule insert_all_keys_distinct) simp
  moreover have "distinct (map snd ?m)"
    by (rule insert_all_values_distinct) (simp add: snd_f ports)
  moreover have "\<forall>k\<in>fst ` set ?m. 2 \<le> length k"
  proof
    fix k assume "k \<in> fst ` set ?m"
    then have "k \<in> fst ` set (map ?f ms)"
      by (simp add: insert_all_keys)
    then obtain s where "s \<in> fst ` set ms" and "k = split DELIMITER s"
      by force
    with delim have "DELIMITER \<in> set s"
      by blast
    with \<open>k = split DELIMITER s\<close> show "2 \<le> length k"
      by (simp only: length_split_mem)
  qed
  ultimately show ?thesis
    using load by blast
qed (use assms in \<open>simp_all add: written_by_save_def\<close>)

lemma save_written:
  assumes ports: "distinct (map snd m)" and pairs: "\<forall>k\<in>fst ` set m. 2 \<le> length k"
  shows "\<exists>ms. save_mappings m = (Object ms, None) \<and> written_by_save (Object ms)"
proof -
  let ?g = "\<lambda>(k, v). (key_text k, v)"
  let ?ms = "insert_all [] (map ?g m)"
  have save: "save_mappings m = (Object ?ms, None)"
    by (simp add: save_mappings_def serialize_items_insert_all [OF pairs])
  have snd_g: "snd \<circ> ?g = snd"
    by auto
  have "distinct (map fst ?ms)"
    by (rule insert_all_keys_distinct) simp
  moreover have "distinct (map snd ?ms)"
    by (rule insert_all_values_distinct) (simp add: snd_g ports)
  moreover have "\<forall>s\<in>fst ` set ?ms. DELIMITER \<in> set s"
  proof
    fix s assume "s \<in> fst ` set ?ms"
    then have "s \<in> fst ` set (map ?g m)"
      by (simp add: insert_all_keys)
    then obtain k where "s = key_text k"
      by force
    then show "DELIMITER \<in> set s"
      by (simp add: key_text_has_delimiter)
  qed
  ultimately have "written_by_save (Object ?ms)"
    by (simp add: written_by_save_def list_all_iff)
  with save show ?thesis by blast
qed

lemma next_port_fresh:
  "(if m \<noteq> [] then Max (set (map snd m)) + 1 else START_PORT) \<notin> snd ` set (m :: mappings)"
proof (cases "m = []")
  case True
  then show ?thesis by simp
next
  case False
  have "v \<le> Max (set (map snd m))" if "v \<in> snd ` set m" for v
    using that by (intro Max_ge) auto
  then have "Max (set (map snd m)) + 1 \<notin> snd ` set m"
    by (metis add_le_same_cancel1 not_one_le_zero)
  with False show ?thesis by simp
qed

lemma resolve_written:
  assumes "written_by_save st"
  shows "written_by_save (snd (resolve ip protocol st)) \<and>
         (\<exists>port. fst (resolve ip protocol st) = Inr port)"
proof -
  from load_written [OF assms] obtain m where load: "load_mappings st = Inr m"
    and ports: "distinct (map snd m)" and pairs: "\<forall>k\<in>fst ` set m. 2 \<le> length k"
    by blast
  show ?thesis
  proof (cases "map_of m [ip, protocol]")
    case (Some port)
    with load assms show ?thesis by (simp add: resolve_def)
  next
    case None
    let ?port = "if m \<noteq> [] then Max (set (map snd m)) + 1 else START_PORT"
    let ?m' = "AList.update [ip, protocol] ?port m"
    have "distinct (map snd ?m')"
      using ports next_port_fresh by (rule distinct_values_update)
    moreover have "\<forall>k\<in>fst ` set ?m'. 2 \<le> length k"
      using pairs by (simp add: dom_update)
    ultimately obtain ms where "save_mappings ?m' = (Object ms, None)"
      and "written_by_save (Object ms)"
      using save_written by blast
    with load None show ?thesis
      by (simp add: resolve_def Let_def)
  qed
qed

lemma resolve_all_written:
  "written_by_save st \<Longrightarrow> written_by_save (resolve_all reqs st)"
  by (induction reqs arbitrary: st) (auto simp: resolve_written)

section \<open>The mapping store\<close>

text \<open>
  About one state of the file at a time: in every state reached from the empty store (no
  file) by any sequence of resolutions, the mapping set the program loads has no key
  twice and no port twice, and so have the records in the file itself. This says nothing
  about the ports a pair was answered with earlier in the run.
\<close>

lemma stored_ports_distinct:
  "store_invariant (resolve_all reqs Missing) \<and> written_by_save (resolve_all reqs Missing)"
proof -
  have written: "written_by_save (resolve_all reqs Missing)"
    by (rule resolve_all_written) (simp add: written_by_save_def)
  from load_written [OF this] have "store_invariant (resolve_all reqs Missing)"
    by (auto simp: store_invariant_def)
  then show ?thesis using written by simp
qed

text \<open>
  Claim C4. Over the life of the store a pair should keep the one port it was given, and
  no port should be given to two pairs. From the empty store the requests
  \<^verbatim>\<open>(a, ssh)\<close>, \<^verbatim>\<open>(a|ssh, http)\<close>, \<^verbatim>\<open>(c, ssh)\<close>, \<^verbatim>\<open>(a, ssh)\<close> are answered with
  10000, 10001, 10002 and 10001: the pair \<^verbatim>\<open>(a, ssh)\<close> is told 10000 and later 10001,
  the port first given to \<^verbatim>\<open>(a|ssh, http)\<close>. The key \<^verbatim>\<open>a|ssh|http\<close> is loaded as the
  tuple \<^verbatim>\<open>('a', 'ssh', 'http')\<close>, which the next save writes under the name
  \<^verbatim>\<open>a|ssh\<close>, over the record of \<^verbatim>\<open>(a, ssh)\<close>.
\<close>

theorem pair_answered_with_two_ports:
  "resolve ''a'' ''ssh'' Missing = (Inr 10000, Object [(''a|ssh'', 10000)])
   \<and> resolve ''a|ssh'' ''http'' (Object [(''a|ssh'', 10000)])
     = (Inr 10001, Object [(''a|ssh'', 10000), (''a|ssh|http'', 10001)])
   \<and> resolve ''c'' ''ssh'' (Object [(''a|ssh'', 10000), (''a|ssh|http'', 10001)])
     = (Inr 10002, Object [(''a|ssh'', 10001), (''c|ssh'', 10002)])
   \<and> resolve ''a'' ''ssh'' (Object [(''a|ssh'', 10001), (''c|ssh'', 10002)])
     = (Inr 10001, Object [(''a|ssh'', 10001), (''c|ssh'', 10002)])
   \<and> resolve_answers
       [(''a'', ''ssh''), (''a|ssh'', ''http''), (''c'', ''ssh''), (''a'', ''ssh'')] Missing
     = [Inr 10000, Inr 10001, Inr 10002, Inr 10001]"
proof -
  have first: "resolve ''a'' ''ssh'' Missing = (Inr 10000, Object [(''a|ssh'', 10000)])"
    by code_simp
  have second: "resolve ''a|ssh'' ''http'' (Object [(''a|ssh'', 10000)])
      = (Inr 10001, Object [(''a|ssh'', 10000), (''a|ssh|http'', 10001)])"
    by code_simp
  have third: "resolve ''c'' ''ssh'' (Object [(''a|ssh'', 10000), (''a|ssh|http'', 10001)])
      = (Inr 10002, Object [(''a|ssh'', 10001), (''c|ssh'', 10002)])"
    by code_simp
  have fourth: "resolve ''a'' ''ssh'' (Object [(''a|ssh'', 10001), (''c|ssh'', 10002)])
      = (Inr 10001, Object [(''a|ssh'', 10001), (''c|ssh'', 10002)])"
    by code_simp
  show ?thesis
    by (simp only: first second third fourth resolve_answers.simps prod.case simp_thms)
qed

section \<open>Allocation of a new port\<close>

lemma resolve_new:
  assumes load: "load_mappings st = Inr m" and new: "map_of m [ip, protocol] = None"
    and pairs: "\<forall>k\<in>fst ` set m. 2 \<le> length k"
  shows "fst (resolve ip protocol st) =
           Inr (if m = [] then START_PORT else Max (snd ` set m) + 1)"
proof -
  define port where "port = (if m \<noteq> [] then Max (set (map snd m)) + 1 else START_PORT)"
  define m' where "m' = AList.update [ip, protocol] port m"
  have "\<forall>k\<in>fst ` set m'. 2 \<le> length k"
    using pairs by (simp add: m'_def dom_update)
  then have "serialize_items m' [] = Inr (insert_all [] (map (\<lambda>(k, v). (key_text k, v)) m'))"
    by (rule serialize_items_insert_all)
  then have save: "save_mappings m' =
      (Object (insert_all [] (map (\<lambda>(k, v). (key_text k, v)) m')), None)"
    by (simp add: save_mappings_def)
  have "resolve ip protocol st =
      (case save_mappings m' of (st', Some e) \<Rightarrow> (Inl e, st') | (st', None) \<Rightarrow> (Inr port, st'))"
    unfolding resolve_def Let_def load port_def m'_def
    by (simp add: new split del: if_split)
  then have "fst (resolve ip protocol st) = Inr port"
    by (simp add: save)
  then show ?thesis
    by (simp add: port_def)
qed

lemma resolve_first:
  "resolve ip protocol Missing = (Inr START_PORT, Object [(ip @ DELIMITER # protocol, START_PORT)])"
  by (simp add: resolve_def load_mappings_def save_mappings_def)

lemma load_single:
  "load_mappings (Object [(s, port)]) = Inr [(split DELIMITER s, port)]"
  by (simp add: load_mappings_def dict_of_def)

lemma resolve_second:
  assumes "(ip2, p2) \<noteq> (ip1, p1)"
  shows "fst (resolve ip2 p2 (snd (resolve ip1 p1 Missing))) = Inr (START_PORT + 1)"
proof -
  let ?k = "split DELIMITER (ip1 @ DELIMITER # p1)"
  have "?k \<noteq> [ip2, p2]"
    using assms split_pair_inject [of DELIMITER ip1 p1 ip2 p2] by auto
  then have "map_of [(?k, START_PORT)] [ip2, p2] = None"
    by simp
  moreover have "\<forall>k\<in>fst ` set [(?k, START_PORT)]. 2 \<le> length k"
    by (simp add: length_split_sep)
  ultimately have "fst (resolve ip2 p2 (Object [(ip1 @ DELIMITER # p1, START_PORT)])) =
      Inr (if [(?k, START_PORT)] = [] then START_PORT
           else Max (snd ` set [(?k, START_PORT)]) + 1)"
    by (intro resolve_new load_single)
  then show ?thesis
    by (simp add: resolve_first)
qed

text \<open>
  Claim C1. For every state of the mapping file that loads to a mapping set \<open>m\<close> whose
  keys have at least two components, resolving a pair that is not a key of \<open>m\<close> returns
  \<^verbatim>\<open>START_PORT\<close> (10000) when \<open>m\<close> is empty and the largest port of \<open>m\<close> plus one
  otherwise. From the empty store, the first resolution returns \<^verbatim>\<open>START_PORT\<close>, and a
  second one for any other pair returns \<^verbatim>\<open>START_PORT + 1\<close>.
\<close>

theorem resolve_allocates_next_port:
  "(load_mappings st = Inr m \<and> map_of m [ip, protocol] = None \<and> (\<forall>k\<in>fst ` set m. 2 \<le> length k)
      \<longrightarrow> fst (resolve ip protocol st) =
            Inr (if m = [] then START_PORT else Max (snd ` set m) + 1))
   \<and> fst (resolve ip1 p1 Missing) = Inr START_PORT
   \<and> ((ip2, p2) \<noteq> (ip1, p1)
      \<longrightarrow> fst (resolve ip2 p2 (snd (resolve ip1 p1 Missing))) = Inr (START_PORT + 1))"
  using resolve_new [of st m ip protocol] resolve_second [of ip2 p2 ip1 p1]
  by (simp add: resolve_first)

theorem resolve_allocates_next_port_witness:
  "fst (resolve ''10.0.0.3'' ''ssh''
         (Object [(''10.0.0.1|ssh'', 10000), (''10.0.0.2|http'', 10004)])) = Inr 10005
   \<and> fst (resolve ''10.0.0.1'' ''ssh'' Missing) = Inr 10000
   \<and> fst (resolve ''10.0.0.2'' ''http'' (snd (resolve ''10.0.0.1'' ''ssh'' Missing))) = Inr 10001"
proof -
  let ?st = "Object [(''10.0.0.1|ssh'', 10000), (''10.0.0.2|http'', 10004)]"
  let ?m = "[([''10.0.0.1'', ''ssh''], 10000), ([''10.0.0.2'', ''http''], 10004 :: int)]"
  have load: "load_mappings ?st = Inr ?m"
    by code_simp
  have new: "map_of ?m [''10.0.0.3'', ''ssh''] = None"
    by simp
  have pairs: "\<forall>k\<in>fst ` set ?m. 2 \<le> length k"
    by simp
  have other: "(''10.0.0.2'', ''http'') \<noteq> (''10.0.0.1'', ''ssh'')"
    by simp
  show ?thesis
    using resolve_allocates_next_port
      [of ?st ?m "''10.0.0.3''" "''ssh''" "''10.0.0.1''" "''ssh''" "''10.0.0.2''" "''http''"]
      load new pairs other
    by (simp add: START_PORT_def)
qed

section \<open>A host that contains the delimiter\<close>

lemma index_forward:
  assumes "parameters r = (Some protocol, Some ip)" and "protocol \<noteq> []" and "ip \<noteq> []"
  shows "index r st = forward protocol ip (host r) st"
  using assms by (simp add: index_def truthy_def)

lemma forward_redirect:
  assumes "map_of PROTOCOL_PORTS protocol = Some internal_port"
    and "resolve ip protocol st = (Inr port, st')"
  shows "forward protocol ip h st =
     (Inr (Redirect (protocol @ ''://'' @ hd (split CHR '':'' h) @ '':'' @ str port)),
      st', [(port, ip, internal_port)])"
  using assms by (simp add: forward_def)

text \<open>
  Claim C2. Resolving the same pair twice should return the same port and leave the size
  of the mapping set alone. For the host \<^verbatim>\<open>a|b\<close>, which a GET request can carry in its
  \<^verbatim>\<open>ip\<close> argument, it does not: from the empty store the first request is redirected
  to port 10000 and writes one record, the same request again is redirected to port 10001
  and the file then holds two records. The key \<^verbatim>\<open>a|b|ssh\<close> is read back as the tuple
  \<^verbatim>\<open>('a', 'b', 'ssh')\<close>, which is not the pair \<^verbatim>\<open>('a|b', 'ssh')\<close> that is looked up.
\<close>

theorem delimiter_in_host_breaks_idempotence:
  "index \<lparr>request_method = GET, args = [''ip'' \<mapsto> ''a|b'', ''protocol'' \<mapsto> ''ssh''],
           form = Map.empty, host = ''localhost:5000''\<rparr> Missing
     = (Inr (Redirect ''ssh://localhost:10000''),
        Object [(''a|b|ssh'', 10000)],
        [(10000, ''a|b'', 22)])
   \<and> index \<lparr>request_method = GET, args = [''ip'' \<mapsto> ''a|b'', ''protocol'' \<mapsto> ''ssh''],
             form = Map.empty, host = ''localhost:5000''\<rparr> (Object [(''a|b|ssh'', 10000)])
     = (Inr (Redirect ''ssh://localhost:10001''),
        Object [(''a|b'', 10000), (''a|b|ssh'', 10001)],
        [(10001, ''a|b'', 22)])
   \<and> resolve ''a|b'' ''ssh'' Missing = (Inr 10000, Object [(''a|b|ssh'', 10000)])
   \<and> resolve ''a|b'' ''ssh'' (Object [(''a|b|ssh'', 10000)])
     = (Inr 10001, Object [(''a|b'', 10000), (''a|b|ssh'', 10001)])"
proof -
  let ?r = "\<lparr>request_method = GET, args = [''ip'' \<mapsto> ''a|b'', ''protocol'' \<mapsto> ''ssh''],
           form = Map.empty, host = ''localhost:5000''\<rparr>"
  have first: "resolve ''a|b'' ''ssh'' Missing = (Inr 10000, Object [(''a|b|ssh'', 10000)])"
    by code_simp
  have second: "resolve ''a|b'' ''ssh'' (Object [(''a|b|ssh'', 10000)])
      = (Inr 10001, Object [(''a|b'', 10000), (''a|b|ssh'', 10001)])"
    by code_simp
  have ssh: "map_of PROTOCOL_PORTS ''ssh'' = Some 22"
    by (simp add: PROTOCOL_PORTS_def)
  have host_ip: "hd (split CHR '':'' ''localhost:5000'') = ''localhost''"
    by code_simp
  have port1: "str 10000 = ''10000''"
    by (simp add: str_def digits.simps digit_def)
  have port2: "str 10001 = ''10001''"
    by (simp add: str_def digits.simps digit_def)
  have p: "parameters ?r = (Some ''ssh'', Some ''a|b'')"
    by (simp add: parameters_def)
  have "index ?r st = forward ''ssh'' ''a|b'' ''localhost:5000'' st" for st
    using index_forward [OF p] by simp
  then show ?thesis
    by (simp only: forward_redirect [OF ssh first] forward_redirect [OF ssh second]
        host_ip port1 port2 first second append.simps simp_thms)
qed

text \<open>
  Claim C3. Saving a mapping set and loading it again should give the same set. The set
  with the one record \<^verbatim>\<open>('a|b', 'ssh') -> 10000\<close> is written as \<^verbatim>\<open>{"a|b|ssh": 10000}\<close> and
  loaded as \<^verbatim>\<open>('a', 'b', 'ssh') -> 10000\<close>; the two records \<^verbatim>\<open>('a|b', 'c') -> 10000\<close> and
  \<^verbatim>\<open>('a', 'b|c') -> 10001\<close> are written under the same name, so one record is loaded.
\<close>

theorem delimiter_in_host_breaks_round_trip:
  "save_mappings [([''a|b'', ''ssh''], 10000)] = (Object [(''a|b|ssh'', 10000)], None)
   \<and> load_mappings (Object [(''a|b|ssh'', 10000)]) = Inr [([''a'', ''b'', ''ssh''], 10000)]
   \<and> save_mappings [([''a|b'', ''c''], 10000), ([''a'', ''b|c''], 10001)]
     = (Object [(''a|b|c'', 10001)], None)
   \<and> load_mappings (Object [(''a|b|c'', 10001)]) = Inr [([''a'', ''b'', ''c''], 10001)]"
  by code_simp

section \<open>Loading from a file that holds no mappings\<close>

lemma load_mappings_no_mappings:
  "load_mappings Missing = Inr [] \<and> load_mappings Empty_File = Inr []
   \<and> load_mappings Invalid_Json = Inr []"
  by (simp add: load_mappings_def)

lemma index_load_error:
  assumes "parameters r = (Some protocol, Some ip)" and "protocol \<noteq> []" and "ip \<noteq> []"
    and "map_of PROTOCOL_PORTS protocol = Some internal_port"
    and "load_mappings st = Inl e"
  shows "index r st = (Inl e, st, [])"
  using assms by (simp add: index_forward forward_def resolve_def)

text \<open>
  Claim C8. Loading from storage that holds no usable mappings should give the empty
  mapping set and raise nothing. The setup writes \<^verbatim>\<open>[]\<close> to a mapping file that is
  missing or empty; on that file \<^verbatim>\<open>load_mappings\<close> raises \<^verbatim>\<open>AttributeError\<close> at
  \<^verbatim>\<open>mappings.items()\<close>, and so does every request that names a host and a supported
  protocol. A file that exists and cannot be opened makes it raise the \<^verbatim>\<open>OSError\<close> of
  \<^verbatim>\<open>open\<close>. Only \<^verbatim>\<open>json.JSONDecodeError\<close> is caught.
\<close>

theorem load_mappings_raises_on_setup_file:
  "validate_configuration Missing = Array
   \<and> validate_configuration Empty_File = Array
   \<and> load_mappings Array = Inl AttributeError
   \<and> load_mappings Unreadable = Inl OSError
   \<and> index \<lparr>request_method = GET, args = [''ip'' \<mapsto> ''10.0.0.1'', ''protocol'' \<mapsto> ''ssh''],
             form = Map.empty, host = ''localhost:5000''\<rparr> (validate_configuration Missing)
     = (Inl AttributeError, Array, [])"
proof -
  let ?r = "\<lparr>request_method = GET, args = [''ip'' \<mapsto> ''10.0.0.1'', ''protocol'' \<mapsto> ''ssh''],
             form = Map.empty, host = ''localhost:5000''\<rparr>"
  have initial: "validate_configuration Missing = Array"
    by (simp add: validate_configuration_def)
  have raises: "load_mappings Array = Inl AttributeError"
    by (simp add: load_mappings_def)
  have p: "parameters ?r = (Some ''ssh'', Some ''10.0.0.1'')"
    by (simp add: parameters_def)
  have ssh: "map_of PROTOCOL_PORTS ''ssh'' = Some 22"
    by (simp add: PROTOCOL_PORTS_def)
  have "index ?r Array = (Inl AttributeError, Array, [])"
    using p _ _ ssh raises by (rule index_load_error) simp_all
  then show ?thesis
    by (simp add: initial raises validate_configuration_def load_mappings_def)
qed

section \<open>GET and POST requests\<close>

lemma index_same_parameters:
  assumes "parameters g = parameters p" and "host g = host p"
  shows "snd (index g st) = snd (index p st)"
    and "redirect_of (fst (index g st)) = redirect_of (fst (index p st))"
    and "truthy (fst (parameters g)) \<and> truthy (snd (parameters g)) \<Longrightarrow> index g st = index p st"
  using assms
  by (auto simp: index_def redirect_of_def missing_parameters_def split: prod.splits)

lemma resolve_first_ssh:
  "resolve ip ''ssh'' Missing = (Inr 10000, Object [(ip @ ''|ssh'', 10000)])"
  using resolve_first [of ip "''ssh''"] by (simp add: START_PORT_def DELIMITER_def)

text \<open>
  Claim C10. A GET request and a POST request that carry the same \<^verbatim>\<open>protocol\<close> and
  \<^verbatim>\<open>ip\<close> (as query arguments and as form fields) and the same \<^verbatim>\<open>Host\<close> header leave
  the same mapping file, start the same proxy threads and redirect to the same URL, or
  both do not redirect; when both parameters are given the two answers are equal
  altogether. In particular a GET request for protocol \<^verbatim>\<open>ssh\<close> and a host \<open>ip\<close> on the
  empty store writes the record for the pair with port 10000, hands
  \<^verbatim>\<open>start_tcp_proxy(10000, ip, 22)\<close> to a thread and redirects to port 10000.
\<close>

theorem index_get_same_as_post:
  "(request_method g = GET \<and> request_method p = POST
      \<and> args g ''protocol'' = form p ''protocol'' \<and> args g ''ip'' = form p ''ip''
      \<and> host g = host p
    \<longrightarrow> snd (index g st) = snd (index p st)
        \<and> redirect_of (fst (index g st)) = redirect_of (fst (index p st))
        \<and> (truthy (args g ''protocol'') \<and> truthy (args g ''ip'') \<longrightarrow> index g st = index p st))
   \<and> (request_method g = GET \<and> args g ''protocol'' = Some ''ssh'' \<and> args g ''ip'' = Some ip
      \<and> ip \<noteq> []
    \<longrightarrow> index g Missing =
          (Inr (Redirect (''ssh://'' @ hd (split CHR '':'' (host g)) @ '':10000'')),
           Object [(ip @ ''|ssh'', 10000)],
           [(10000, ip, 22)]))"
proof (intro conjI impI)
  assume a: "request_method g = GET \<and> request_method p = POST
      \<and> args g ''protocol'' = form p ''protocol'' \<and> args g ''ip'' = form p ''ip''
      \<and> host g = host p"
  then have same: "parameters g = parameters p" and h: "host g = host p"
    by (simp_all add: parameters_def)
  show "snd (index g st) = snd (index p st)"
    using same h by (rule index_same_parameters)
  show "redirect_of (fst (index g st)) = redirect_of (fst (index p st))"
    using same h by (rule index_same_parameters)
  assume "truthy (args g ''protocol'') \<and> truthy (args g ''ip'')"
  with a have "truthy (fst (parameters g)) \<and> truthy (snd (parameters g))"
    by (simp add: parameters_def)
  with same h show "index g st = index p st"
    by (rule index_same_parameters)
next
  assume b: "request_method g = GET \<and> args g ''protocol'' = Some ''ssh'' \<and> args g ''ip'' = Some ip
      \<and> ip \<noteq> []"
  then have "parameters g = (Some ''ssh'', Some ip)"
    by (simp add: parameters_def)
  with b have "index g Missing = forward ''ssh'' ip (host g) Missing"
    by (simp add: index_forward)
  moreover have "map_of PROTOCOL_PORTS ''ssh'' = Some 22"
    by (simp add: PROTOCOL_PORTS_def)
  moreover have "str 10000 = ''10000''"
    by (simp add: str_def digits.simps digit_def)
  ultimately show "index g Missing =
          (Inr (Redirect (''ssh://'' @ hd (split CHR '':'' (host g)) @ '':10000'')),
           Object [(ip @ ''|ssh'', 10000)],
           [(10000, ip, 22)])"
    by (simp add: forward_redirect [OF _ resolve_first_ssh])
qed

theorem index_get_same_as_post_witness:
  "index \<lparr>request_method = GET, args = [''ip'' \<mapsto> ''10.0.0.1'', ''protocol'' \<mapsto> ''ssh''],
           form = Map.empty, host = ''localhost:5000''\<rparr> Missing
     = (Inr (Redirect ''ssh://localhost:10000''),
        Object [(''10.0.0.1|ssh'', 10000)],
        [(10000, ''10.0.0.1'', 22)])
   \<and> index \<lparr>request_method = POST, args = Map.empty,
             form = [''ip'' \<mapsto> ''10.0.0.1'', ''protocol'' \<mapsto> ''ssh''],
             host = ''localhost:5000''\<rparr> Missing
     = index \<lparr>request_method = GET, args = [''ip'' \<mapsto> ''10.0.0.1'', ''protocol'' \<mapsto> ''ssh''],
           form = Map.empty, host = ''localhost:5000''\<rparr> Missing"
proof -
  let ?g = "\<lparr>request_method = GET, args = [''ip'' \<mapsto> ''10.0.0.1'', ''protocol'' \<mapsto> ''ssh''],
           form = Map.empty, host = ''localhost:5000''\<rparr>"
  let ?p = "\<lparr>request_method = POST, args = Map.empty,
             form = [''ip'' \<mapsto> ''10.0.0.1'', ''protocol'' \<mapsto> ''ssh''],
             host = ''localhost:5000''\<rparr>"
  note t = index_get_same_as_post [of ?g ?p Missing "''10.0.0.1''"]
  have host_ip: "hd (split CHR '':'' ''localhost:5000'') = ''localhost''"
    by code_simp
  have same_input: "request_method ?g = GET \<and> request_method ?p = POST
      \<and> args ?g ''protocol'' = form ?p ''protocol'' \<and> args ?g ''ip'' = form ?p ''ip''
      \<and> host ?g = host ?p"
    by simp
  have given: "truthy (args ?g ''protocol'') \<and> truthy (args ?g ''ip'')"
    by (simp add: truthy_def)
  have get: "request_method ?g = GET \<and> args ?g ''protocol'' = Some ''ssh''
      \<and> args ?g ''ip'' = Some ''10.0.0.1'' \<and> ''10.0.0.1'' \<noteq> []"
    by simp
  have eq: "index ?g Missing = index ?p Missing"
    using t [THEN conjunct1, THEN mp, OF same_input, THEN conjunct2, THEN conjunct2,
        THEN mp, OF given] .
  have "index ?g Missing =
      (Inr (Redirect (''ssh://'' @ hd (split CHR '':'' (host ?g)) @ '':10000'')),
       Object [(''10.0.0.1'' @ ''|ssh'', 10000)], [(10000, ''10.0.0.1'', 22)])"
    using t [THEN conjunct2, THEN mp, OF get] .
  then have val: "index ?g Missing = (Inr (Redirect ''ssh://localhost:10000''),
      Object [(''10.0.0.1|ssh'', 10000)], [(10000, ''10.0.0.1'', 22)])"
    by (simp add: host_ip)
  show ?thesis
    by (simp only: eq [symmetric] val simp_thms)
qed

section \<open>The life of a listener thread\<close>

lemma accept_loop_Some:
  assumes "accept_loop outcomes i = Some n"
  shows "i \<le> n \<and> outcomes n = Accept_Error"
proof (rule accept_loop.raw_induct
    [where P = "\<lambda>outcomes i n. i \<le> n \<and> outcomes n = Accept_Error", OF _ assms])
  fix loop :: "(nat \<Rightarrow> accept_outcome) \<Rightarrow> nat \<Rightarrow> nat option" and outcomes i n
  assume IH: "\<And>oc j m. loop oc j = Some m \<Longrightarrow> j \<le> m \<and> oc m = Accept_Error"
    and eq: "(case outcomes i of
                Connection \<Rightarrow> loop outcomes (Suc i)
              | Accept_Error \<Rightarrow> Some i
              | Never_Returns \<Rightarrow> None) = Some n"
  show "i \<le> n \<and> outcomes n = Accept_Error"
  proof (cases "outcomes i")
    case Connection
    with eq have "loop outcomes (Suc i) = Some n" by simp
    then have "Suc i \<le> n \<and> outcomes n = Accept_Error" by (rule IH)
    then show ?thesis by simp
  next
    case Accept_Error
    with eq show ?thesis by simp
  next
    case Never_Returns
    with eq show ?thesis by simp
  qed
qed

lemma accept_loop_never:
  assumes "\<forall>j\<ge>i. outcomes j \<noteq> Accept_Error"
  shows "accept_loop outcomes i = None"
proof (cases "accept_loop outcomes i")
  case None
  then show ?thesis .
next
  case (Some n)
  then have "i \<le> n \<and> outcomes n = Accept_Error" by (rule accept_loop_Some)
  with assms show ?thesis by blast
qed

lemma accept_loop_raises:
  "outcomes (i + k) = Accept_Error \<Longrightarrow> \<forall>j<k. outcomes (i + j) = Connection
   \<Longrightarrow> accept_loop outcomes i = Some (i + k)"
proof (induction k arbitrary: i)
  case 0
  then show ?case by (subst accept_loop.simps) simp
next
  case (Suc k)
  from Suc.prems have first: "outcomes i = Connection"
    by (metis add.right_neutral zero_less_Suc)
  from Suc.prems have "outcomes (Suc i + k) = Accept_Error"
    and "\<forall>j<k. outcomes (Suc i + j) = Connection"
    by (simp, metis Suc_less_eq add_Suc_right add_Suc)
  then have "accept_loop outcomes (Suc i) = Some (Suc i + k)"
    by (rule Suc.IH)
  with first show ?case
    by (subst accept_loop.simps) simp
qed

lemma proxy_worker_bind_failed: "\<not> bind_ok e \<Longrightarrow> proxy_worker e = Some Bind_Failed"
  by (simp add: proxy_worker_def)

lemma proxy_worker_never_ends:
  "bind_ok e \<Longrightarrow> \<forall>j. accepts e j \<noteq> Accept_Error \<Longrightarrow> proxy_worker e = None"
  by (simp add: proxy_worker_def accept_loop_never)

lemma stop_proxy_blocks:
  assumes "active_proxies w port = Some t" and "proxy_worker (env t) = None"
  shows "stop_proxy env port w =
           Blocks_Forever (w\<lparr>active_proxies := (active_proxies w)(port := None)\<rparr>)"
  using assms by (simp add: stop_proxy_def join_def)

lemma stop_proxy_returns:
  assumes "active_proxies w port = Some t" and "proxy_worker (env t) = Some x"
  shows "stop_proxy env port w =
           Returns (w\<lparr>active_proxies := (active_proxies w)(port := None)\<rparr>)"
  using assms by (simp add: stop_proxy_def join_def)

lemma stop_proxy_absent: "active_proxies w port = None \<Longrightarrow> stop_proxy env port w = Returns w"
  by (simp add: stop_proxy_def)

lemma start_tcp_proxy_absent:
  "active_proxies w port = None \<Longrightarrow>
   start_tcp_proxy env port remote_ip remote_port w =
     Returns (w\<lparr>threads := threads w @ [(port, remote_ip, remote_port)],
                 active_proxies := (active_proxies w)(port \<mapsto> length (threads w))\<rparr>)"
  by (simp add: start_tcp_proxy_def)

lemma start_tcp_proxy_blocks:
  assumes "active_proxies w port = Some t" and "proxy_worker (env t) = None"
  shows "start_tcp_proxy env port remote_ip remote_port w =
           Blocks_Forever (w\<lparr>active_proxies := (active_proxies w)(port := None)\<rparr>)"
  using assms by (simp add: start_tcp_proxy_def stop_proxy_blocks)

lemma start_tcp_proxy_restarts:
  assumes "active_proxies w port = Some t" and "proxy_worker (env t) = Some x"
  shows "start_tcp_proxy env port remote_ip remote_port w =
           Returns (w\<lparr>threads := threads w @ [(port, remote_ip, remote_port)],
                       active_proxies := (active_proxies w)(port \<mapsto> length (threads w))\<rparr>)"
  using assms stop_proxy_returns [of w port t env x] by (simp add: start_tcp_proxy_def)

lemma start_tcp_proxy_registers:
  assumes "start_tcp_proxy env port remote_ip remote_port w = Returns w'"
  shows "threads w' = threads w @ [(port, remote_ip, remote_port)]
         \<and> active_proxies w' port = Some (length (threads w))"
proof (cases "active_proxies w port")
  case None
  with assms show ?thesis by (auto simp: start_tcp_proxy_absent)
next
  case (Some t)
  show ?thesis
  proof (cases "proxy_worker (env t)")
    case None
    with Some assms show ?thesis by (simp add: start_tcp_proxy_blocks)
  next
    case (Some x)
    with \<open>active_proxies w port = Some t\<close> assms show ?thesis
      by (auto simp: start_tcp_proxy_restarts)
  qed
qed


section \<open>Stopping and restarting a listener\<close>

text \<open>
  Claim C7. Stopping a running listener should close its socket and return after a
  bounded wait. Port 10000 is given a listener by \<^verbatim>\<open>start_tcp_proxy\<close>; its \<^verbatim>\<open>bind\<close>
  succeeds and no call of \<^verbatim>\<open>accept\<close> ever raises (no client connects, or clients keep
  connecting). Then \<^verbatim>\<open>stop_proxy(10000)\<close> pops the registry entry and blocks in
  \<^verbatim>\<open>join\<close> for ever: nothing in it closes the socket, so the accept loop never ends.
\<close>

theorem stop_proxy_never_returns:
  "start_tcp_proxy (\<lambda>t. \<lparr>bind_ok = True, accepts = (\<lambda>i. Never_Returns)\<rparr>) 10000 ''10.0.0.1'' 22
       \<lparr>active_proxies = Map.empty, threads = []\<rparr>
     = Returns \<lparr>active_proxies = [10000 \<mapsto> 0], threads = [(10000, ''10.0.0.1'', 22)]\<rparr>
   \<and> stop_proxy (\<lambda>t. \<lparr>bind_ok = True, accepts = (\<lambda>i. Never_Returns)\<rparr>) 10000
       \<lparr>active_proxies = [10000 \<mapsto> 0], threads = [(10000, ''10.0.0.1'', 22)]\<rparr>
     = Blocks_Forever \<lparr>active_proxies = Map.empty, threads = [(10000, ''10.0.0.1'', 22)]\<rparr>
   \<and> stop_proxy (\<lambda>t. \<lparr>bind_ok = True, accepts = (\<lambda>i. Connection)\<rparr>) 10000
       \<lparr>active_proxies = [10000 \<mapsto> 0], threads = [(10000, ''10.0.0.1'', 22)]\<rparr>
     = Blocks_Forever \<lparr>active_proxies = Map.empty, threads = [(10000, ''10.0.0.1'', 22)]\<rparr>"
proof -
  have quiet: "proxy_worker \<lparr>bind_ok = True, accepts = (\<lambda>i. Never_Returns)\<rparr> = None"
    by (rule proxy_worker_never_ends) simp_all
  have busy: "proxy_worker \<lparr>bind_ok = True, accepts = (\<lambda>i. Connection)\<rparr> = None"
    by (rule proxy_worker_never_ends) simp_all
  show ?thesis
    by (simp add: start_tcp_proxy_absent stop_proxy_blocks [where t = 0] quiet busy)
qed

text \<open>
  Claim C5, as stated, fails: port 10000 is registered to a listener with the target
  \<^verbatim>\<open>('10.0.0.1', 22)\<close>, and \<^verbatim>\<open>start_tcp_proxy\<close> is called for the same port and the
  same target. With a listener whose accept loop never ends the call removes the entry
  and never returns; with a listener whose \<^verbatim>\<open>accept\<close> raises the call returns with
  a second worker thread started and registered in place of the first.
\<close>

theorem same_target_restart_counterexample:
  "start_tcp_proxy (\<lambda>t. \<lparr>bind_ok = True, accepts = (\<lambda>i. Never_Returns)\<rparr>) 10000 ''10.0.0.1'' 22
       \<lparr>active_proxies = [10000 \<mapsto> 0], threads = [(10000, ''10.0.0.1'', 22)]\<rparr>
     = Blocks_Forever \<lparr>active_proxies = Map.empty, threads = [(10000, ''10.0.0.1'', 22)]\<rparr>
   \<and> start_tcp_proxy (\<lambda>t. \<lparr>bind_ok = True, accepts = (\<lambda>i. Accept_Error)\<rparr>) 10000 ''10.0.0.1'' 22
       \<lparr>active_proxies = [10000 \<mapsto> 0], threads = [(10000, ''10.0.0.1'', 22)]\<rparr>
     = Returns \<lparr>active_proxies = [10000 \<mapsto> 1],
                threads = [(10000, ''10.0.0.1'', 22), (10000, ''10.0.0.1'', 22)]\<rparr>"
proof -
  have quiet: "proxy_worker \<lparr>bind_ok = True, accepts = (\<lambda>i. Never_Returns)\<rparr> = None"
    by (rule proxy_worker_never_ends) simp_all
  have ended: "proxy_worker \<lparr>bind_ok = True, accepts = (\<lambda>i. Accept_Error)\<rparr>
      = Some (Accept_Failed 0)"
    by (simp add: proxy_worker_def accept_loop.simps)
  show ?thesis
    by (simp add: start_tcp_proxy_blocks [where t = 0] quiet
        start_tcp_proxy_restarts [where t = 0 and x = "Accept_Failed 0"] ended)
qed

text \<open>
  Claim C5, amended. For a port that is registered, \<^verbatim>\<open>start_tcp_proxy\<close> is never a
  no-op, whether the target is the same or not (the registry does not record targets).
  It pops the entry of the port and joins the thread the entry named: while that thread
  does not end the call is blocked and the port has no entry; when it has ended, a new
  worker thread for the given target is started and registered for the port, in place of
  the thread registered before.
\<close>

theorem start_tcp_proxy_pops_joins_restarts:
  "active_proxies w port = Some t \<longrightarrow>
     start_tcp_proxy env port remote_ip remote_port w =
       (case join env t of
          None \<Rightarrow> Blocks_Forever (w\<lparr>active_proxies := (active_proxies w)(port := None)\<rparr>)
        | Some u \<Rightarrow>
            Returns (w\<lparr>threads := threads w @ [(port, remote_ip, remote_port)],
                        active_proxies := (active_proxies w)(port \<mapsto> length (threads w))\<rparr>))
     \<and> start_tcp_proxy env port remote_ip remote_port w \<noteq> Returns w
     \<and> (t < length (threads w) \<and> start_tcp_proxy env port remote_ip remote_port w = Returns w'
        \<longrightarrow> active_proxies w' port \<noteq> active_proxies w port)"
proof
  assume registered: "active_proxies w port = Some t"
  have main: "start_tcp_proxy env port remote_ip remote_port w =
       (case join env t of
          None \<Rightarrow> Blocks_Forever (w\<lparr>active_proxies := (active_proxies w)(port := None)\<rparr>)
        | Some u \<Rightarrow>
            Returns (w\<lparr>threads := threads w @ [(port, remote_ip, remote_port)],
                        active_proxies := (active_proxies w)(port \<mapsto> length (threads w))\<rparr>))"
  proof (cases "proxy_worker (env t)")
    case None
    then show ?thesis
      using start_tcp_proxy_blocks [of w port t env] registered by (simp add: join_def)
  next
    case (Some x)
    then show ?thesis
      using start_tcp_proxy_restarts [of w port t env x] registered by (simp add: join_def)
  qed
  have changed: "start_tcp_proxy env port remote_ip remote_port w \<noteq> Returns w"
  proof
    assume "start_tcp_proxy env port remote_ip remote_port w = Returns w"
    then have "threads w = threads w @ [(port, remote_ip, remote_port)]"
      using start_tcp_proxy_registers by blast
    then show False by simp
  qed
  have fresh: "active_proxies w' port \<noteq> active_proxies w port"
    if "t < length (threads w) \<and> start_tcp_proxy env port remote_ip remote_port w = Returns w'"
  proof -
    from that have "active_proxies w' port = Some (length (threads w))"
      using start_tcp_proxy_registers by blast
    with that registered show ?thesis by simp
  qed
  from main changed fresh
  show "start_tcp_proxy env port remote_ip remote_port w =
       (case join env t of
          None \<Rightarrow> Blocks_Forever (w\<lparr>active_proxies := (active_proxies w)(port := None)\<rparr>)
        | Some u \<Rightarrow>
            Returns (w\<lparr>threads := threads w @ [(port, remote_ip, remote_port)],
                        active_proxies := (active_proxies w)(port \<mapsto> length (threads w))\<rparr>))
     \<and> start_tcp_proxy env port remote_ip remote_port w \<noteq> Returns w
     \<and> (t < length (threads w) \<and> start_tcp_proxy env port remote_ip remote_port w = Returns w'
        \<longrightarrow> active_proxies w' port \<noteq> active_proxies w port)"
    by blast
qed

theorem start_tcp_proxy_pops_joins_restarts_witness:
  "start_tcp_proxy (\<lambda>t. \<lparr>bind_ok = True, accepts = (\<lambda>i. Connection)\<rparr>) 10000 ''10.0.0.1'' 22
       \<lparr>active_proxies = [10000 \<mapsto> 0], threads = [(10000, ''10.0.0.1'', 22)]\<rparr>
     = Blocks_Forever \<lparr>active_proxies = Map.empty, threads = [(10000, ''10.0.0.1'', 22)]\<rparr>
   \<and> start_tcp_proxy
       (\<lambda>t. \<lparr>bind_ok = True, accepts = (\<lambda>i. if i = 0 then Connection else Accept_Error)\<rparr>)
       10000 ''10.0.0.1'' 22
       \<lparr>active_proxies = [10000 \<mapsto> 0], threads = [(10000, ''10.0.0.1'', 22)]\<rparr>
     = Returns \<lparr>active_proxies = [10000 \<mapsto> 1],
                threads = [(10000, ''10.0.0.1'', 22), (10000, ''10.0.0.1'', 22)]\<rparr>"
proof -
  let ?busy = "\<lambda>t :: nat. \<lparr>bind_ok = True, accepts = (\<lambda>i. Connection)\<rparr>"
  let ?ends = "\<lambda>t :: nat.
    \<lparr>bind_ok = True, accepts = (\<lambda>i. if i = 0 then Connection else Accept_Error)\<rparr>"
  let ?w = "\<lparr>active_proxies = [10000 \<mapsto> 0], threads = [(10000, ''10.0.0.1'', 22)]\<rparr>"
  have registered: "active_proxies ?w 10000 = Some 0"
    by simp
  have "proxy_worker (?busy 0) = None"
    by (rule proxy_worker_never_ends) simp_all
  then have never: "join ?busy 0 = None"
    by (simp add: join_def)
  have "accept_loop (\<lambda>i. if i = 0 then Connection else Accept_Error) 0 = Some 1"
    using accept_loop_raises [of "\<lambda>i. if i = 0 then Connection else Accept_Error" 0 1]
    by simp
  then have ended: "join ?ends 0 = Some ()"
    by (simp add: join_def proxy_worker_def)
  note blocked = start_tcp_proxy_pops_joins_restarts
      [of ?w 10000 0 ?busy "''10.0.0.1''" 22, THEN mp, OF registered, THEN conjunct1]
  note restarted = start_tcp_proxy_pops_joins_restarts
      [of ?w 10000 0 ?ends "''10.0.0.1''" 22, THEN mp, OF registered, THEN conjunct1]
  have a: "start_tcp_proxy ?busy 10000 ''10.0.0.1'' 22 ?w
      = Blocks_Forever \<lparr>active_proxies = Map.empty, threads = [(10000, ''10.0.0.1'', 22)]\<rparr>"
    using blocked by (simp add: never)
  have b: "start_tcp_proxy ?ends 10000 ''10.0.0.1'' 22 ?w
      = Returns \<lparr>active_proxies = [10000 \<mapsto> 1],
                threads = [(10000, ''10.0.0.1'', 22), (10000, ''10.0.0.1'', 22)]\<rparr>"
    using restarted by (simp add: ended)
  from a b show ?thesis ..
qed

section \<open>A listener that fails to bind\<close>

text \<open>
  Claim C6, as stated, fails: \<^verbatim>\<open>start_tcp_proxy\<close> is called for a free port and the
  \<^verbatim>\<open>bind\<close> of the new worker fails. The call returns normally, the registry holds an
  entry for the port, and the worker it names has ended with the failure.
\<close>

theorem bind_failure_counterexample:
  "start_tcp_proxy (\<lambda>t. \<lparr>bind_ok = False, accepts = (\<lambda>i. Never_Returns)\<rparr>) 10000 ''10.0.0.1'' 22
       \<lparr>active_proxies = Map.empty, threads = []\<rparr>
     = Returns \<lparr>active_proxies = [10000 \<mapsto> 0], threads = [(10000, ''10.0.0.1'', 22)]\<rparr>
   \<and> proxy_worker \<lparr>bind_ok = False, accepts = (\<lambda>i. Never_Returns)\<rparr> = Some Bind_Failed"
  by (simp add: start_tcp_proxy_absent proxy_worker_bind_failed)

text \<open>
  Claim C6, amended. A failure of \<^verbatim>\<open>bind\<close> ends the worker thread, whose \<^verbatim>\<open>except\<close>
  clause prints it; nothing is raised to the caller. \<^verbatim>\<open>start_tcp_proxy\<close> for a port
  that is not registered returns normally whatever \<^verbatim>\<open>bind\<close> does, and whenever
  \<^verbatim>\<open>start_tcp_proxy\<close> returns, the registry holds an entry for the port that names the
  worker thread just started.
\<close>

theorem bind_failure_stays_registered:
  "(\<not> bind_ok (env (length (threads w)))
      \<longrightarrow> proxy_worker (env (length (threads w))) = Some Bind_Failed)
   \<and> (active_proxies w port = None
      \<longrightarrow> start_tcp_proxy env port remote_ip remote_port w =
            Returns (w\<lparr>threads := threads w @ [(port, remote_ip, remote_port)],
                        active_proxies := (active_proxies w)(port \<mapsto> length (threads w))\<rparr>))
   \<and> (start_tcp_proxy env port remote_ip remote_port w = Returns w'
      \<longrightarrow> threads w' = threads w @ [(port, remote_ip, remote_port)]
          \<and> active_proxies w' port = Some (length (threads w)))"
  using start_tcp_proxy_registers [of env port remote_ip remote_port w w']
  by (simp add: proxy_worker_bind_failed start_tcp_proxy_absent)

theorem bind_failure_stays_registered_witness:
  "proxy_worker \<lparr>bind_ok = False, accepts = (\<lambda>i. Never_Returns)\<rparr> = Some Bind_Failed
   \<and> start_tcp_proxy (\<lambda>t. \<lparr>bind_ok = False, accepts = (\<lambda>i. Never_Returns)\<rparr>) 10000 ''10.0.0.1'' 22
         \<lparr>active_proxies = Map.empty, threads = []\<rparr>
       = Returns \<lparr>active_proxies = [10000 \<mapsto> 0], threads = [(10000, ''10.0.0.1'', 22)]\<rparr>
   \<and> active_proxies
        \<lparr>active_proxies = [10000 \<mapsto> 0], threads = [(10000, ''10.0.0.1'', 22)]\<rparr> (10000 :: int)
     = Some 0"
proof -
  let ?env = "\<lambda>t :: nat. \<lparr>bind_ok = False, accepts = (\<lambda>i. Never_Returns)\<rparr>"
  let ?w = "\<lparr>active_proxies = Map.empty :: int \<rightharpoonup> nat, threads = []\<rparr>"
  let ?w' = "\<lparr>active_proxies = [10000 \<mapsto> 0 :: nat],
               threads = [(10000 :: int, ''10.0.0.1'', 22 :: int)]\<rparr>"
  note t = bind_failure_stays_registered [of ?env ?w 10000 "''10.0.0.1''" 22 ?w']
  have fails: "\<not> bind_ok (?env (length (threads ?w)))"
    by simp
  have absent: "active_proxies ?w 10000 = None"
    by simp
  have worker: "proxy_worker (?env (length (threads ?w))) = Some Bind_Failed"
    using t [THEN conjunct1, THEN mp, OF fails] .
  have "start_tcp_proxy ?env 10000 ''10.0.0.1'' 22 ?w =
      Returns (?w\<lparr>threads := threads ?w @ [(10000, ''10.0.0.1'', 22)],
                    active_proxies := (active_proxies ?w)(10000 \<mapsto> length (threads ?w))\<rparr>)"
    using t [THEN conjunct2, THEN conjunct1, THEN mp, OF absent] .
  then have returns: "start_tcp_proxy ?env 10000 ''10.0.0.1'' 22 ?w = Returns ?w'"
    by simp
  have "active_proxies ?w' 10000 = Some (length (threads ?w))"
    using t [THEN conjunct2, THEN conjunct2, THEN mp, OF returns, THEN conjunct2] .
  with worker returns show ?thesis
    by simp
qed

section \<open>Pairs without the delimiter\<close>

text \<open>
  When neither the host nor the protocol of any key contains the delimiter, the text of a
  key splits back into the pair it was made from. Then saving and loading give the mapping
  set back, and for such a pair a second resolution finds what the first one stored: the
  same port is returned and the file is left as it is.
\<close>

lemma split_inject: "split sep s = split sep t \<Longrightarrow> s = t"
proof (induction s arbitrary: t)
  case Nil
  then show ?case
    by (cases t) (auto split: list.splits if_splits simp: split_nonempty)
next
  case (Cons c s)
  show ?case
  proof (cases t)
    case Nil
    with Cons.prems show ?thesis
      by (auto split: list.splits if_splits simp: split_nonempty)
  next
    case (Cons d t')
    obtain p ps where s: "split sep s = p # ps"
      using split_nonempty [of sep s] by (cases "split sep s") auto
    obtain q qs where t': "split sep t' = q # qs"
      using split_nonempty [of sep t'] by (cases "split sep t'") auto
    from Cons.prems have "c = d \<and> split sep s = split sep t'"
      unfolding Cons by (auto simp: s t' split: if_splits)
    with Cons.IH show ?thesis
      unfolding Cons by auto
  qed
qed

lemma split_key_text:
  "DELIMITER \<notin> set a \<Longrightarrow> DELIMITER \<notin> set b \<Longrightarrow> split DELIMITER (key_text [a, b]) = [a, b]"
  by (simp add: key_text_def split_append_sep split_no_sep)

lemma save_load_round_trip:
  assumes keys: "distinct (map fst m)"
    and pairs: "\<forall>k\<in>fst ` set m. \<exists>a b. k = [a, b] \<and> DELIMITER \<notin> set a \<and> DELIMITER \<notin> set b"
  shows "save_mappings m = (Object (map (\<lambda>(k, v). (key_text k, v)) m), None)
         \<and> load_mappings (Object (map (\<lambda>(k, v). (key_text k, v)) m)) = Inr m"
proof -
  let ?g = "\<lambda>(k, v). (key_text k, v)"
  let ?f = "\<lambda>(s, v). (split DELIMITER s, v :: int)"
  have inv: "split DELIMITER (key_text k) = k" if "k \<in> fst ` set m" for k
  proof -
    from pairs that obtain a b
      where "k = [a, b]" and "DELIMITER \<notin> set a" and "DELIMITER \<notin> set b"
      by blast
    then show ?thesis by (simp add: split_key_text)
  qed
  have "inj_on key_text (fst ` set m)"
    by (rule inj_on_inverseI [where g = "split DELIMITER"]) (rule inv)
  then have "inj_on key_text (set (map fst m))"
    by simp
  with keys have "distinct (map key_text (map fst m))"
    using distinct_map [of key_text "map fst m"] by blast
  moreover have "map fst (map ?g m) = map key_text (map fst m)"
    by (induction m) auto
  ultimately have texts: "distinct (map fst (map ?g m))"
    by (simp only:)
  have "\<forall>k\<in>fst ` set m. 2 \<le> length k"
  proof
    fix k assume "k \<in> fst ` set m"
    with pairs obtain a b where "k = [a, b]" by blast
    then show "2 \<le> length k" by simp
  qed
  then have "serialize_items m [] = Inr (insert_all [] (map ?g m))"
    by (rule serialize_items_insert_all)
  moreover have "insert_all [] (map ?g m) = map ?g m"
    using insert_all_fresh [of "[]" "map ?g m"] texts by simp
  ultimately have save: "save_mappings m = (Object (map ?g m), None)"
    by (simp add: save_mappings_def)
  have "?f (?g x) = x" if "x \<in> set m" for x
  proof -
    obtain k v where x: "x = (k, v)" by (cases x)
    with that have "k \<in> fst ` set m" by force
    then show ?thesis by (simp add: x inv)
  qed
  then have there_and_back: "map ?f (map ?g m) = m"
    by (simp only: map_map) (rule map_idI, simp)
  have written: "dict_of (map ?g m) = map ?g m"
    using texts by (rule dict_of_distinct)
  have loaded: "dict_of m = m"
    using keys by (rule dict_of_distinct)
  have "load_mappings (Object (map ?g m)) = Inr (dict_of (map ?f (dict_of (map ?g m))))"
    by (simp add: load_mappings_def)
  then have "load_mappings (Object (map ?g m)) = Inr m"
    by (simp only: written there_and_back loaded)
  with save show ?thesis by simp
qed

lemma serialize_items_distinct:
  "serialize_items m d = Inr d' \<Longrightarrow> distinct (map fst d) \<Longrightarrow> distinct (map fst d')"
  by (induction m d rule: serialize_items.induct) (auto split: sum.splits simp: distinct_update)

lemma serialize_items_last:
  "serialize_items (m @ [(k, v)]) d = Inr d' \<Longrightarrow> 2 \<le> length k \<Longrightarrow> map_of d' (key_text k) = Some v"
proof (induction m d rule: serialize_items.induct)
  case (1 d)
  then show ?case
    by (auto simp: serialize_key_text update_conv')
next
  case (2 k' v' items d)
  then show ?case
    by (auto split: sum.splits)
qed

lemma resolve_twice_same_port:
  assumes ip: "DELIMITER \<notin> set ip" and protocol: "DELIMITER \<notin> set protocol"
    and first: "resolve ip protocol st = (Inr port, st')"
  shows "resolve ip protocol st' = (Inr port, st')"
proof -
  from first obtain m where load: "load_mappings st = Inr m"
    by (auto simp: resolve_def split: sum.splits)
  show ?thesis
  proof (cases "map_of m [ip, protocol]")
    case (Some p)
    with load first have "port = p" and "st' = st"
      by (simp_all add: resolve_def)
    with first show ?thesis by simp
  next
    case None
    define p where "p = (if m \<noteq> [] then Max (set (map snd m)) + 1 else START_PORT)"
    define m' where "m' = AList.update [ip, protocol] p m"
    have "resolve ip protocol st =
        (case save_mappings m' of (st', Some e) \<Rightarrow> (Inl e, st') | (st', None) \<Rightarrow> (Inr p, st'))"
      unfolding resolve_def Let_def load p_def m'_def
      by (simp add: None split del: if_split)
    with first obtain ms where ms: "serialize_items m' [] = Inr ms"
      and st': "st' = Object ms" and port: "port = p"
      by (auto simp: save_mappings_def split: sum.splits)
    have "[ip, protocol] \<notin> fst ` set m"
      using None by (simp add: map_of_eq_None_iff)
    then have "m' = m @ [([ip, protocol], p)]"
      unfolding m'_def by (rule update_fresh)
    with ms have "map_of ms (key_text [ip, protocol]) = Some p"
      using serialize_items_last [of m "[ip, protocol]" p "[]" ms] by simp
    then have mem: "(key_text [ip, protocol], p) \<in> set ms"
      by (rule map_of_SomeD)
    have texts: "distinct (map fst ms)"
      using ms by (rule serialize_items_distinct) simp
    let ?f = "\<lambda>(s, v). (split DELIMITER s, v :: int)"
    have "inj_on (split DELIMITER) (set (map fst ms))"
      by (rule inj_onI) (rule split_inject)
    with texts have "distinct (map (split DELIMITER) (map fst ms))"
      using distinct_map [of "split DELIMITER" "map fst ms"] by blast
    moreover have "map fst (map ?f ms) = map (split DELIMITER) (map fst ms)"
      by (induction ms) auto
    ultimately have tuples: "distinct (map fst (map ?f ms))"
      by (simp only:)
    have "dict_of ms = ms"
      using texts by (rule dict_of_distinct)
    moreover have "dict_of (map ?f ms) = map ?f ms"
      using tuples by (rule dict_of_distinct)
    ultimately have load': "load_mappings st' = Inr (map ?f ms)"
      by (simp add: load_mappings_def st')
    have "?f (key_text [ip, protocol], p) \<in> set (map ?f ms)"
      using mem by (simp only: set_map) (rule imageI)
    then have "([ip, protocol], p) \<in> set (map ?f ms)"
      using split_key_text [OF ip protocol] by simp
    with tuples have "map_of (map ?f ms) [ip, protocol] = Some p"
      by (rule map_of_is_SomeI)
    with load' port show ?thesis
      by (simp add: resolve_def)
  qed
qed

end
